theory Spec2Isabelle
  imports Main
begin

section \<open>TinyXVC front end: profile resolution and driver activation (src/txvc.c)\<close>

text \<open>
  The development embeds \<^verbatim>\<open>activate_driver\<close> and \<^verbatim>\<open>main\<close> of \<^verbatim>\<open>src/txvc.c\<close>.
  A C string is modelled by its contents, the characters before the terminating NUL, as a
  HOL \<open>string\<close>; a \<^verbatim>\<open>const char *\<close> that may be \<^verbatim>\<open>NULL\<close> is a \<open>string option\<close>.
  Everything the code does besides returning a value (log lines, the call of a driver's
  \<^verbatim>\<open>activate\<close>, the server loop) is recorded, in program order, in a list of events.
\<close>

subsection \<open>C library functions used by the code\<close>

text \<open>
  \<^verbatim>\<open>strcmp\<close>: only the sign of the result is specified by C; bytes compare as unsigned.
\<close>

fun strcmp :: "string \<Rightarrow> string \<Rightarrow> int" where
  "strcmp [] [] = 0"
| "strcmp [] (y # ys) = - 1"
| "strcmp (x # xs) [] = 1"
| "strcmp (x # xs) (y # ys) =
     (if x = y then strcmp xs ys
      else if (of_char x :: nat) < of_char y then - 1 else 1)"

text \<open>
  \<^verbatim>\<open>strchr(s, c)\<close> for a character \<open>c\<close> other than NUL: the offset of the first occurrence
  of \<open>c\<close> in \<open>s\<close>, or \<open>None\<close> for the \<^verbatim>\<open>NULL\<close> result.
\<close>

fun strchr :: "string \<Rightarrow> char \<Rightarrow> nat option" where
  "strchr [] c = None"
| "strchr (x # xs) c = (if x = c then Some 0 else map_option Suc (strchr xs c))"

text \<open>
  The idiom the code uses three times (lines 182-184 for \<open>:\<close>, 187-190 for \<open>,\<close> and
  192-198 for \<open>=\<close>):
  \<^verbatim>\<open>p = strchr(s, c); if (p) { *p++ = '\0'; }\<close>
  Writing NUL over the separator ends the string that starts at \<open>s\<close> there; the incremented
  pointer reads the text behind the separator. The result is the text now read at \<open>s\<close>
  and the new pointer (\<open>None\<close> when \<^verbatim>\<open>strchr\<close> found nothing).
\<close>

definition cut_at :: "string \<Rightarrow> char \<Rightarrow> string \<times> string option" where
  "cut_at s c =
     (case strchr s c of
        None \<Rightarrow> (s, None)
      | Some k \<Rightarrow> (take k s, Some (drop (Suc k) s)))"

subsection \<open>Data of the program\<close>

text \<open>
  \<^verbatim>\<open>struct txvc_profile_alias\<close> (alias.h), its field \<^verbatim>\<open>alias\<close> named \<open>alias_name\<close>
  here. The table \<^verbatim>\<open>txvc_profile_aliases\<close> is an array ended by an entry whose \<^verbatim>\<open>alias\<close> is \<^verbatim>\<open>NULL\<close>; it is modelled by the list of the entries before
  that sentinel, and is a parameter of the functions below.
\<close>

record txvc_profile_alias =
  alias_name :: string
  profile :: string
  description :: string

text \<open>
  \<^verbatim>\<open>struct txvc_driver\<close> (driver.h): \<^verbatim>\<open>name\<close>, \<^verbatim>\<open>help\<close> (here \<open>help_text\<close>), and the two
  function pointers. The outcome of a driver's \<^verbatim>\<open>activate\<close> depends on hardware; it is a
  parameter, a function of the two argument arrays it is called with.
  The arrays \<^verbatim>\<open>argNames\<close> and \<^verbatim>\<open>argValues\<close> have 32 slots of \<^verbatim>\<open>const char *\<close>.
\<close>

record txvc_driver =
  name :: string
  help_text :: string
  activate :: "string option list \<Rightarrow> string option list \<Rightarrow> bool"
  deactivate :: "unit \<Rightarrow> bool"

text \<open>\<^verbatim>\<open>struct cli_options\<close> (lines 46-50), fields prefixed with \<open>opt_\<close>.\<close>

record cli_options =
  opt_serverAddr :: "string option"
  opt_profile :: "string option"
  opt_verbose :: bool
  opt_help :: bool

text \<open>What the program does to the outside, in program order.\<close>

datatype event =
    LogInfo string \<comment> \<open>\<^verbatim>\<open>INFO(...)\<close>, the formatted message\<close>
  | LogWarn string \<comment> \<open>\<^verbatim>\<open>WARN(...)\<close>\<close>
  | LogError string \<comment> \<open>\<^verbatim>\<open>ERROR(...)\<close>\<close>
  | Activate string "string option list" "string option list"
      \<comment> \<open>\<^verbatim>\<open>d->activate(argNames, argValues)\<close> of the driver of that name\<close>
  | Deactivate string \<comment> \<open>\<^verbatim>\<open>d->deactivate()\<close>\<close>
  | RunServer string string \<comment> \<open>\<^verbatim>\<open>txvc_run_server(serverAddr, d, &shouldTerminate)\<close>\<close>
  | PrintUsage string bool \<comment> \<open>\<^verbatim>\<open>printUsage(argv[0], detailed)\<close>\<close>
  | Stderr string \<comment> \<open>\<^verbatim>\<open>fprintf(stderr, ...)\<close>\<close>
  | SetLogMinLevel bool \<comment> \<open>\<^verbatim>\<open>txvc_set_log_min_level\<close>, \<open>True\<close> for verbose\<close>
  | ListenForUserInterrupt \<comment> \<open>\<^verbatim>\<open>listen_for_user_interrupt()\<close>\<close>

fun is_Activate :: "event \<Rightarrow> bool" where
  "is_Activate (Activate n ns vs) = True"
| "is_Activate e = False"

fun is_RunServer :: "event \<Rightarrow> bool" where
  "is_RunServer (RunServer a n) = True"
| "is_RunServer e = False"

fun is_LogError :: "event \<Rightarrow> bool" where
  "is_LogError (LogError m) = True"
| "is_LogError e = False"

fun is_alias_found :: "event \<Rightarrow> bool" where
  "is_alias_found (LogInfo m) = (take 12 m = ''Found alias '')"
| "is_alias_found e = False"

subsection \<open>The driver registry\<close>

text \<open>\<^verbatim>\<open>find_by_name\<close> (lines 155-158): \<open>True\<close>, that is "go on", while the names differ.\<close>

definition find_by_name :: "txvc_driver \<Rightarrow> string \<Rightarrow> bool" where
  "find_by_name d extra = (strcmp extra (name d) \<noteq> 0)"

text \<open>
  Modelled from the spec: \<^verbatim>\<open>txvc_enumerate_drivers\<close> is defined in driver.c, which is not
  among the sources. The spec (section 6) describes it as "a registry-iteration primitive
  that, given a predicate over {name, help}, returns the first matching descriptor or none;
  used both for find by name and print all". With the two callbacks of txvc.c
  (\<^verbatim>\<open>driver_usage\<close> returns \<open>true\<close> on every driver to print them all, \<^verbatim>\<open>find_by_name\<close> returns
  \<open>false\<close> on the driver looked for) the descriptor returned is the first one on which the
  callback returns \<open>false\<close>. The registry is the list of the registered descriptors.
\<close>

fun txvc_enumerate_drivers ::
  "(txvc_driver \<Rightarrow> 'e \<Rightarrow> bool) \<Rightarrow> 'e \<Rightarrow> txvc_driver list \<Rightarrow> txvc_driver option" where
  "txvc_enumerate_drivers fn extra [] = None"
| "txvc_enumerate_drivers fn extra (d # ds) =
     (if fn d extra then txvc_enumerate_drivers fn extra ds else Some d)"

subsection \<open>\<^verbatim>\<open>activate_driver\<close>, lines 160-212\<close>

text \<open>
  Lines 161-167, the loop over the alias table: one pass, entry by entry; an entry whose
  alias equals the current profile string logs two lines and replaces the profile string,
  and the remaining entries are compared with the new string.
\<close>

fun alias_loop :: "txvc_profile_alias list \<Rightarrow> string \<Rightarrow> string \<times> event list" where
  "alias_loop [] prof = (prof, [])"
| "alias_loop (a # as) prof =
     (if strcmp prof (alias_name a) = 0
      then (let (p, evs) = alias_loop as (profile a)
            in (p, LogInfo (''Found alias '' @ alias_name a @ '' ('' @ description a @ ''),'' @ [CHR 0x0A])
                 # LogInfo (''using profile '' @ profile a @ [CHR 0x0A])
                 # evs))
      else alias_loop as prof)"

text \<open>
  Lines 174-176: \<^verbatim>\<open>strncpy(args, profile, sizeof(args)); args[sizeof(args) - 1] = '\0';\<close>
  with \<^verbatim>\<open>char args[1024]\<close>. The C string then held by \<open>args\<close> is the profile string cut to
  its first 1023 characters.
\<close>

definition args_size :: nat where
  "args_size = 1024"

definition scratch_copy :: "string \<Rightarrow> string" where
  "scratch_copy prof = take (args_size - 1) prof"

text \<open>
  The same two lines on the bytes of the buffer, to check \<open>scratch_copy\<close> and \<open>cut_at\<close>
  against them (lemmas \<open>scratch_copy_bytes\<close> and \<open>cut_at_bytes\<close>): \<open>c_str\<close> reads the C
  string that starts at the first byte of a byte sequence; \<open>strncpy src n\<close> is the \<open>n\<close>
  bytes that \<^verbatim>\<open>strncpy(dest, src, n)\<close> writes, the first \<open>n\<close> characters of the source string
  and NUL in the bytes behind a shorter one; \<open>args_buffer\<close> is the content of the 1024 bytes
  of \<^verbatim>\<open>args\<close> after line 176.
\<close>

definition NUL :: char where
  "NUL = CHR 0x00"

definition c_str :: "char list \<Rightarrow> string" where
  "c_str bytes = takeWhile (\<lambda>c. c \<noteq> NUL) bytes"

definition strncpy :: "string \<Rightarrow> nat \<Rightarrow> char list" where
  "strncpy src n = take n src @ replicate (n - length src) NUL"

definition args_buffer :: "string \<Rightarrow> char list" where
  "args_buffer prof = (strncpy prof args_size)[args_size - 1 := NUL]"

text \<open>
  Lines 191-198, the body of the pair loop after the pair has been cut off: the name is
  the pair's text up to its first \<open>=\<close>, the value the text behind it, or \<^verbatim>\<open>""\<close> when the
  pair has no \<open>=\<close>.
\<close>

definition name_value :: "string \<Rightarrow> string \<times> string" where
  "name_value tmp =
     (case cut_at tmp CHR ''='' of
        (n, Some v) \<Rightarrow> (n, v)
      | (n, None) \<Rightarrow> (n, []))"

text \<open>
  Lines 185-199, the pair loop
  \<^verbatim>\<open>for (size_t i = 0; i < 32 && cur && *cur; i++)\<close>, from slot \<open>i\<close> on.
\<close>

function pair_loop ::
  "nat \<Rightarrow> string option \<Rightarrow> string option list \<Rightarrow> string option list
     \<Rightarrow> string option list \<times> string option list" where
  "pair_loop i cur argNames argValues =
     (if i < 32 \<and> cur \<noteq> None \<and> the cur \<noteq> []
      then pair_loop (Suc i) (snd (cut_at (the cur) CHR '',''))
             (argNames[i := Some (fst (name_value (fst (cut_at (the cur) CHR '',''))))])
             (argValues[i := Some (snd (name_value (fst (cut_at (the cur) CHR '',''))))])
      else (argNames, argValues))"
  by pat_completeness auto
termination
  by (relation "measure (\<lambda>(i, cur, argNames, argValues). 32 - i)") auto

declare pair_loop.simps [simp del]

text \<open>
  Lines 178-200 on the contents of the scratch buffer: the driver name and the two
  arrays, \<^verbatim>\<open>NULL\<close> in every slot at first.
\<close>

definition split_profile :: "string \<Rightarrow> string \<times> string option list \<times> string option list" where
  "split_profile args =
     (case cut_at args CHR '':'' of
        (nm, None) \<Rightarrow> (nm, replicate 32 None, replicate 32 None)
      | (nm, Some cur) \<Rightarrow>
          (nm, pair_loop 0 (Some cur) (replicate 32 None) (replicate 32 None)))"

text \<open>Lines 174-200: the copy into the scratch buffer, then the splitting.\<close>

definition parse_profile :: "string \<Rightarrow> string \<times> string option list \<times> string option list" where
  "parse_profile prof = split_profile (scratch_copy prof)"

text \<open>
  The pairs a parse result holds: the filled slots of the two arrays, in slot order.
\<close>

definition arg_pairs :: "string option list \<times> string option list \<Rightarrow> (string \<times> string) list" where
  "arg_pairs r =
     List.map_filter
       (\<lambda>(n, v). case (n, v) of (Some a, Some b) \<Rightarrow> Some (a, b) | _ \<Rightarrow> None)
       (zip (fst r) (snd r))"

text \<open>
  \<^verbatim>\<open>activate_driver\<close>: the returned pointer (\<open>None\<close> for \<^verbatim>\<open>NULL\<close>) and the events.
\<close>

definition activate_driver ::
  "txvc_profile_alias list \<Rightarrow> txvc_driver list \<Rightarrow> string \<Rightarrow> txvc_driver option \<times> event list" where
  \<open>activate_driver aliases drivers prof0 =
     (let (prof, evs) = alias_loop aliases prof0;
          (nm, argNames, argValues) = parse_profile prof
      in case txvc_enumerate_drivers find_by_name nm drivers of
           Some d \<Rightarrow>
             if \<not> activate d argNames argValues
             then (None, evs @ [Activate (name d) argNames argValues,
                     LogError (''Failed to activate driver "'' @ nm @ ''"'' @ [CHR 0x0A])])
             else (Some d, evs @ [Activate (name d) argNames argValues])
         | None \<Rightarrow>
             (None, evs @ [LogError (''Can not find driver "'' @ nm @ ''"'' @ [CHR 0x0A])]))\<close>

subsection \<open>\<^verbatim>\<open>main\<close>, lines 214-244\<close>

definition EXIT_SUCCESS :: int where
  "EXIT_SUCCESS = 0"

definition EXIT_FAILURE :: int where
  "EXIT_FAILURE = 1"

definition DEFAULT_SERVER_ADDR :: string where
  "DEFAULT_SERVER_ADDR = ''127.0.0.1:2542''"

text \<open>
  \<^verbatim>\<open>parse_cli_options\<close>, lines 92-124. The loop of lines 106-118 rests on \<^verbatim>\<open>getopt\<close> and is a
  parameter, \<open>cli\<close>: \<open>None\<close> when the loop meets an option character outside the table and
  returns \<open>false\<close> (line 117; the diagnostic \<^verbatim>\<open>getopt\<close> itself prints is the C library's and is
  not recorded), the options the loop has set otherwise. \<open>operands\<close> are the arguments from
  \<^verbatim>\<open>argv[optind]\<close> on: when there is one, lines 120-123 write a line to \<^verbatim>\<open>stderr\<close> and return
  \<open>false\<close>. \<open>progname\<close> is \<^verbatim>\<open>argv[0]\<close>.
\<close>

definition parse_cli_options ::
  "string \<Rightarrow> cli_options option \<Rightarrow> string list \<Rightarrow> cli_options option \<times> event list" where
  "parse_cli_options progname cli operands =
     (case cli of
        None \<Rightarrow> (None, [])
      | Some out \<Rightarrow>
          if operands \<noteq> []
          then (None, [Stderr (progname @ '': unrecognized extra operands'' @ [CHR 0x0A])])
          else (Some out, []))"

text \<open>
  \<open>main\<close>: the exit status of the process and the events of the run.
\<close>

definition main ::
  "txvc_profile_alias list \<Rightarrow> txvc_driver list \<Rightarrow> string \<Rightarrow> cli_options option \<Rightarrow> string list
     \<Rightarrow> int \<times> event list" where
  \<open>main aliases drivers progname cli operands =
     (case parse_cli_options progname cli operands of
        (None, evp) \<Rightarrow> (EXIT_FAILURE, evp @ [PrintUsage progname False])
      | (Some opts, evp) \<Rightarrow>
          if opt_help opts then (EXIT_SUCCESS, evp @ [PrintUsage progname True])
          else
            (case opt_profile opts of
               None \<Rightarrow> (EXIT_FAILURE, evp @ [Stderr (''Profile is missing'' @ [CHR 0x0A])])
             | Some prof \<Rightarrow>
                 (let serverAddr =
                        (case opt_serverAddr opts of
                           None \<Rightarrow> DEFAULT_SERVER_ADDR
                         | Some a \<Rightarrow> a);
                      evs0 = evp @ [SetLogMinLevel (opt_verbose opts), ListenForUserInterrupt];
                      (r, evs) = activate_driver aliases drivers prof
                  in case r of
                       Some d \<Rightarrow>
                         (0, evs0 @ evs @ [RunServer serverAddr (name d), Deactivate (name d)]
                               @ (if \<not> deactivate d ()
                                  then [LogWarn (''Failed to deactivate driver "'' @ name d
                                                  @ ''"'' @ [CHR 0x0A])]
                                  else []))
                     | None \<Rightarrow> (0, evs0 @ evs))))\<close>

subsection \<open>Notions used to state the properties\<close>

text \<open>
  The pair loop as a function of the text alone: the name/value pairs the loop collects
  from \<open>cur\<close> when \<open>n\<close> slots are left. \<open>pair_loop_pairs_from\<close> below shows that
  \<open>pair_loop\<close> writes exactly these pairs into the slots from \<open>i\<close> on.
\<close>

fun pairs_from :: "nat \<Rightarrow> string option \<Rightarrow> (string \<times> string) list" where
  "pairs_from 0 cur = []"
| "pairs_from (Suc n) None = []"
| "pairs_from (Suc n) (Some s) =
     (if s = [] then []
      else name_value (fst (cut_at s CHR '','')) # pairs_from n (snd (cut_at s CHR '','')))"

text \<open>The text \<open>p0,p1,...\<close> made of the pair texts \<open>ps\<close>.\<close>

fun join_pairs :: "string list \<Rightarrow> string" where
  "join_pairs [] = []"
| "join_pairs [p] = p"
| "join_pairs (p # q # ps) = p @ CHR '','' # join_pairs (q # ps)"

text \<open>
  The text \<open>n=v\<close> of a name/value pair, and the profile string
  \<open>d:n0=v0,n1=v1,...\<close> of a driver name and a list of pairs (section 6 of the spec).
\<close>

definition render_pair :: "string \<times> string \<Rightarrow> string" where
  "render_pair nv = fst nv @ CHR ''='' # snd nv"

definition profile_text :: "string \<Rightarrow> (string \<times> string) list \<Rightarrow> string" where
  "profile_text d nvs = d @ CHR '':'' # join_pairs (map render_pair nvs)"

text \<open>
  The two 32-slot arrays that hold the pairs \<open>ps\<close> from slot 0 on, \<^verbatim>\<open>NULL\<close> in the slots behind.
\<close>

definition arrays_of :: "(string \<times> string) list \<Rightarrow> string option list \<times> string option list" where
  "arrays_of ps =
     (map (Some \<circ> fst) ps @ replicate (32 - length ps) None,
      map (Some \<circ> snd) ps @ replicate (32 - length ps) None)"

section \<open>Properties\<close>

subsection \<open>Strings and cuts\<close>

lemma strcmp_eq_0: "strcmp a b = 0 \<longleftrightarrow> a = b"
  by (induction a b rule: strcmp.induct) auto

lemma strchr_None: "strchr s c = None \<longleftrightarrow> c \<notin> set s"
  by (induction s) auto

lemma strchr_append: "c \<notin> set a \<Longrightarrow> strchr (a @ c # b) c = Some (length a)"
  by (induction a) auto

lemma strchr_SomeD: "strchr s c = Some k \<Longrightarrow> k < length s \<and> s ! k = c \<and> c \<notin> set (take k s)"
proof (induction s arbitrary: k)
  case Nil
  then show ?case by simp
next
  case (Cons x xs)
  then show ?case by (auto split: if_splits)
qed

lemma cut_at_absent: "c \<notin> set s \<Longrightarrow> cut_at s c = (s, None)"
  by (simp add: cut_at_def strchr_None [THEN iffD2])

lemma cut_at_append: "c \<notin> set a \<Longrightarrow> cut_at (a @ c # b) c = (a, Some b)"
  by (simp add: cut_at_def strchr_append)

lemma cut_at_cases:
  "(c \<notin> set s \<and> cut_at s c = (s, None)) \<or>
   (\<exists>a b. s = a @ c # b \<and> c \<notin> set a \<and> cut_at s c = (a, Some b))"
proof (cases "strchr s c")
  case None
  then show ?thesis by (simp add: strchr_None cut_at_absent)
next
  case (Some k)
  from strchr_SomeD [OF Some] have k: "k < length s" "s ! k = c" "c \<notin> set (take k s)"
    by simp_all
  then have "s = take k s @ c # drop (Suc k) s"
    by (metis id_take_nth_drop)
  with k show ?thesis
    using cut_at_append by metis
qed

lemma name_value_absent: "CHR ''='' \<notin> set p \<Longrightarrow> name_value p = (p, [])"
  by (simp add: name_value_def cut_at_absent)

lemma name_value_append: "CHR ''='' \<notin> set n \<Longrightarrow> name_value (n @ CHR ''='' # v) = (n, v)"
  by (simp add: name_value_def cut_at_append)

lemma length_pairs_from: "length (pairs_from n cur) \<le> n"
  by (induction n cur rule: pairs_from.induct) auto

lemma pair_loop_stop:
  "\<not> (i < 32 \<and> cur \<noteq> None \<and> the cur \<noteq> []) \<Longrightarrow> pair_loop i cur ns vs = (ns, vs)"
  by (subst pair_loop.simps) auto

lemma pair_loop_step:
  "i < 32 \<Longrightarrow> s \<noteq> [] \<Longrightarrow>
   pair_loop i (Some s) ns vs =
     pair_loop (Suc i) (snd (cut_at s CHR '',''))
       (ns[i := Some (fst (name_value (fst (cut_at s CHR '',''))))])
       (vs[i := Some (snd (name_value (fst (cut_at s CHR '',''))))])"
  by (subst pair_loop.simps) simp

lemma fill_step:
  assumes "i < length xs"
  shows "take (Suc i) (xs[i := x]) @ ys @ drop (Suc i + length ys) (xs[i := x])
         = take i xs @ (x # ys) @ drop (i + length (x # ys)) xs"
  using assms by (simp add: take_Suc_conv_app_nth)

subsection \<open>The string model and the bytes of the buffer\<close>

text \<open>
  For a profile string without NUL inside, as every C string is, the C string in the
  scratch buffer after line 176 is \<open>scratch_copy\<close> of the profile string; and writing NUL
  over the separator found by \<^verbatim>\<open>strchr\<close>, in a buffer that holds the string \<open>s\<close> behind any
  bytes \<open>pre\<close>, leaves the two strings that \<open>cut_at\<close> returns at the old and at the
  incremented pointer.
\<close>

lemma c_str_append_NUL: "NUL \<notin> set s \<Longrightarrow> c_str (s @ NUL # rest) = s"
  by (induction s) (auto simp: c_str_def)

lemma scratch_copy_bytes:
  assumes "NUL \<notin> set prof"
  shows "c_str (args_buffer prof) = scratch_copy prof"
proof (cases "1024 \<le> length prof")
  case True
  then have "args_buffer prof = take 1023 prof @ NUL # []"
    by (simp add: args_buffer_def strncpy_def args_size_def list_eq_iff_nth_eq nth_append
          nth_list_update less_Suc_eq_le)
  moreover have "NUL \<notin> set (take 1023 prof)"
    using assms by (auto dest: in_set_takeD)
  ultimately show ?thesis
    by (simp add: c_str_append_NUL scratch_copy_def args_size_def)
next
  case False
  then obtain m where m: "1024 - length prof = Suc m"
    by (cases "1024 - length prof") simp_all
  have "args_buffer prof = prof @ NUL # replicate m NUL"
    using False m
    by (simp add: args_buffer_def strncpy_def args_size_def list_eq_iff_nth_eq nth_append
          nth_list_update nth_Cons')
  then show ?thesis
    using assms False by (simp add: c_str_append_NUL scratch_copy_def args_size_def)
qed

lemma cut_at_bytes:
  assumes "NUL \<notin> set s" and "strchr s c = Some k"
  shows "c_str (drop (length pre) ((pre @ s @ NUL # post)[length pre + k := NUL]))
           = fst (cut_at s c) \<and>
         Some (c_str (drop (length pre + Suc k) ((pre @ s @ NUL # post)[length pre + k := NUL])))
           = snd (cut_at s c)"
proof -
  from strchr_SomeD [OF assms(2)] have k: "k < length s" by simp
  define a where "a = take k s"
  define b where "b = drop (Suc k) s"
  have s: "s = a @ s ! k # b"
    unfolding a_def b_def using k by (rule id_take_nth_drop)
  have la: "length a = k"
    using k by (simp add: a_def)
  have n: "NUL \<notin> set a" "NUL \<notin> set b"
    using assms(1) by (auto simp: a_def b_def dest: in_set_takeD in_set_dropD)
  have "(pre @ s @ NUL # post)[length pre + k := NUL] = pre @ a @ NUL # b @ NUL # post"
    by (subst s) (simp add: list_update_append la [symmetric])
  then have "c_str (drop (length pre) ((pre @ s @ NUL # post)[length pre + k := NUL])) = a"
    and "c_str (drop (length pre + Suc k) ((pre @ s @ NUL # post)[length pre + k := NUL])) = b"
    using n la by (simp_all add: c_str_append_NUL)
  then show ?thesis
    using assms(2) by (simp add: cut_at_def a_def b_def)
qed

subsection \<open>The pair loop\<close>

lemma pairs_from_step:
  "s \<noteq> [] \<Longrightarrow> pairs_from (Suc n) (Some s) =
     name_value (fst (cut_at s CHR '','')) # pairs_from n (snd (cut_at s CHR '',''))"
  by simp

lemma pairs_from_stop:
  "\<not> (i < 32 \<and> cur \<noteq> None \<and> the cur \<noteq> []) \<Longrightarrow> pairs_from (32 - i) cur = []"
  by (cases "32 - i"; cases cur) auto

lemma pair_loop_pairs_from:
  "i \<le> 32 \<Longrightarrow> length ns = 32 \<Longrightarrow> length vs = 32 \<Longrightarrow>
   pair_loop i cur ns vs =
     (take i ns @ map (Some \<circ> fst) (pairs_from (32 - i) cur)
        @ drop (i + length (pairs_from (32 - i) cur)) ns,
      take i vs @ map (Some \<circ> snd) (pairs_from (32 - i) cur)
        @ drop (i + length (pairs_from (32 - i) cur)) vs)"
proof (induction i cur ns vs rule: pair_loop.induct)
  case (1 i cur ns vs)
  show ?case
  proof (cases "i < 32 \<and> cur \<noteq> None \<and> the cur \<noteq> []")
    case False
    show ?thesis
      unfolding pairs_from_stop [OF False] pair_loop_stop [OF False] by simp
  next
    case True
    then obtain s where s: "cur = Some s" "s \<noteq> []" and i: "i < 32"
      by (cases cur) simp_all
    define m where "m = 32 - Suc i"
    have m: "32 - i = Suc m"
      using i unfolding m_def by linarith
    define cur' where "cur' = snd (cut_at s CHR '','')"
    define nv where "nv = name_value (fst (cut_at s CHR '',''))"
    define ns' where "ns' = ns[i := Some (fst nv)]"
    define vs' where "vs' = vs[i := Some (snd nv)]"
    have ps: "pairs_from (32 - i) cur = nv # pairs_from m cur'"
      unfolding m s(1) cur'_def nv_def by (rule pairs_from_step [OF s(2)])
    have step: "pair_loop i cur ns vs = pair_loop (Suc i) cur' ns' vs'"
      unfolding s(1) cur'_def nv_def ns'_def vs'_def by (rule pair_loop_step [OF i s(2)])
    have len: "Suc i \<le> 32" "length (ns[i := x]) = 32" "length (vs[i := y]) = 32" for x y
      using i "1.prems" by simp_all
    have IH: "pair_loop (Suc i) cur' ns' vs' =
      (take (Suc i) ns' @ map (Some \<circ> fst) (pairs_from m cur')
        @ drop (Suc i + length (pairs_from m cur')) ns',
      take (Suc i) vs' @ map (Some \<circ> snd) (pairs_from m cur')
        @ drop (Suc i + length (pairs_from m cur')) vs')"
      using "1.IH" [OF True len] unfolding s(1) option.sel cur'_def nv_def ns'_def vs'_def m_def .
    have n: "i < length ns" and v: "i < length vs"
      using i "1.prems" by simp_all
    have a: "take (Suc i) ns' @ map (Some \<circ> fst) (pairs_from m cur')
               @ drop (Suc i + length (pairs_from m cur')) ns'
             = take i ns @ map (Some \<circ> fst) (nv # pairs_from m cur')
               @ drop (i + length (nv # pairs_from m cur')) ns"
      unfolding ns'_def using fill_step [OF n, of "Some (fst nv)" "map (Some \<circ> fst) (pairs_from m cur')"]
      by simp
    have b: "take (Suc i) vs' @ map (Some \<circ> snd) (pairs_from m cur')
               @ drop (Suc i + length (pairs_from m cur')) vs'
             = take i vs @ map (Some \<circ> snd) (nv # pairs_from m cur')
               @ drop (i + length (nv # pairs_from m cur')) vs"
      unfolding vs'_def using fill_step [OF v, of "Some (snd nv)" "map (Some \<circ> snd) (pairs_from m cur')"]
      by simp
    show ?thesis
      unfolding step IH ps a b ..
  qed
qed

lemma pair_loop_fresh:
  "pair_loop 0 cur (replicate 32 None) (replicate 32 None) =
     (map (Some \<circ> fst) (pairs_from 32 cur) @ replicate (32 - length (pairs_from 32 cur)) None,
      map (Some \<circ> snd) (pairs_from 32 cur) @ replicate (32 - length (pairs_from 32 cur)) None)"
  using pair_loop_pairs_from [of 0 "replicate 32 None" "replicate 32 None" cur] by simp

lemma arg_pairs_empty: "arg_pairs (replicate k None, replicate k None) = []"
  by (induction k) (simp_all add: arg_pairs_def)

lemma arg_pairs_filled:
  "arg_pairs (map (Some \<circ> fst) ps @ replicate k None, map (Some \<circ> snd) ps @ replicate k None) = ps"
proof (induction ps)
  case Nil
  show ?case using arg_pairs_empty [of k] by simp
next
  case (Cons p ps)
  then show ?case by (simp add: arg_pairs_def)
qed

lemma pairs_from_None: "pairs_from n None = []"
  by (cases n) simp_all

lemma pairs_from_Nil: "pairs_from n (Some []) = []"
  by (cases n) simp_all

lemma pairs_from_join:
  "\<forall>p\<in>set ps. CHR '','' \<notin> set p \<Longrightarrow> (ps \<noteq> [] \<Longrightarrow> last ps \<noteq> []) \<Longrightarrow>
   pairs_from n (Some (join_pairs ps)) = map name_value (take n ps)"
proof (induction ps arbitrary: n rule: join_pairs.induct)
  case 1
  show ?case by (simp add: pairs_from_Nil)
next
  case (2 p)
  then have p: "p \<noteq> []" "CHR '','' \<notin> set p" by simp_all
  show ?case
  proof (cases n)
    case 0
    then show ?thesis by simp
  next
    case (Suc k)
    then show ?thesis using p by (simp add: cut_at_absent pairs_from_None)
  qed
next
  case (3 p q ps)
  then have p: "CHR '','' \<notin> set p" by simp
  show ?case
  proof (cases n)
    case 0
    then show ?thesis by simp
  next
    case (Suc k)
    have "pairs_from k (Some (join_pairs (q # ps))) = map name_value (take k (q # ps))"
      using "3.IH" [of k] "3.prems" by simp
    then show ?thesis using Suc p by (simp add: cut_at_append)
  qed
qed

lemma pairs_from_trailing:
  "rest \<noteq> [] \<Longrightarrow> last rest \<noteq> CHR '','' \<Longrightarrow>
   pairs_from n (Some (rest @ '','')) = pairs_from n (Some rest)"
proof (induction n arbitrary: rest)
  case 0
  show ?case by simp
next
  case (Suc n)
  from cut_at_cases [of "CHR '',''" rest] show ?case
  proof (elim disjE conjE exE)
    assume a: "CHR '','' \<notin> set rest" "cut_at rest CHR '','' = (rest, None)"
    have "cut_at (rest @ '','') CHR '','' = (rest, Some [])"
      using cut_at_append [OF a(1), of "[]"] by simp
    then show ?thesis using a Suc.prems by (simp add: pairs_from_None pairs_from_Nil)
  next
    fix a b
    assume r: "rest = a @ CHR '','' # b" "CHR '','' \<notin> set a"
      "cut_at rest CHR '','' = (a, Some b)"
    have b: "b \<noteq> []" "last b \<noteq> CHR '',''"
      using Suc.prems r(1) by (auto split: if_splits)
    have c: "cut_at (rest @ '','') CHR '','' = (a, Some (b @ '',''))"
      using cut_at_append [OF r(2), of "b @ '',''"] r(1) by simp
    show ?thesis using Suc.IH [OF b] r(3) c Suc.prems(1) by simp
  qed
qed

lemma split_profile_no_colon:
  "CHR '':'' \<notin> set s \<Longrightarrow> split_profile s = (s, replicate 32 None, replicate 32 None)"
  by (simp add: split_profile_def cut_at_absent)

lemma split_profile_colon:
  "CHR '':'' \<notin> set d \<Longrightarrow>
   split_profile (d @ CHR '':'' # rest) =
     (d, map (Some \<circ> fst) (pairs_from 32 (Some rest))
           @ replicate (32 - length (pairs_from 32 (Some rest))) None,
         map (Some \<circ> snd) (pairs_from 32 (Some rest))
           @ replicate (32 - length (pairs_from 32 (Some rest))) None)"
  by (simp add: split_profile_def cut_at_append pair_loop_fresh)

lemma alias_loop_no_match:
  "\<forall>a\<in>set aliases. alias_name a \<noteq> prof \<Longrightarrow> alias_loop aliases prof = (prof, [])"
  by (induction aliases) (auto simp: strcmp_eq_0)

lemma alias_loop_count:
  "length (filter is_alias_found (snd (alias_loop aliases prof))) \<le> length aliases"
proof (induction aliases arbitrary: prof)
  case Nil
  show ?case by simp
next
  case (Cons a as)
  show ?case
  proof (cases "strcmp prof (alias_name a) = 0")
    case True
    then show ?thesis using Cons [of "profile a"]
      by (simp add: split_beta)
  next
    case False
    then show ?thesis using Cons [of prof] by simp
  qed
qed

lemma enumerate_find:
  "txvc_enumerate_drivers find_by_name nm drivers = find (\<lambda>d. name d = nm) drivers"
  by (induction drivers) (auto simp: find_by_name_def strcmp_eq_0)

lemma split_profile_colon':
  "CHR '':'' \<notin> set d \<Longrightarrow>
   split_profile (d @ CHR '':'' # rest) = (d, arrays_of (pairs_from 32 (Some rest)))"
  by (simp add: split_profile_colon arrays_of_def)

lemma split_profile_no_colon':
  "CHR '':'' \<notin> set s \<Longrightarrow> split_profile s = (s, arrays_of [])"
  by (simp add: split_profile_no_colon arrays_of_def)

lemma arg_pairs_arrays_of: "arg_pairs (arrays_of ps) = ps"
  by (simp add: arrays_of_def arg_pairs_filled)

lemma split_profile_cases:
  "\<exists>nm ps. split_profile s = (nm, arrays_of ps) \<and> length ps \<le> 32"
proof -
  from cut_at_cases [of "CHR '':''" s] show ?thesis
  proof (elim disjE conjE exE)
    assume "CHR '':'' \<notin> set s"
    then have "split_profile s = (s, arrays_of [])" by (rule split_profile_no_colon')
    then show ?thesis by (metis list.size(3) le0)
  next
    fix a b assume "s = a @ CHR '':'' # b" "CHR '':'' \<notin> set a"
    then have "split_profile s = (a, arrays_of (pairs_from 32 (Some b)))"
      by (simp add: split_profile_colon')
    then show ?thesis using length_pairs_from by blast
  qed
qed

lemma scratch_copy_short: "length s \<le> 1023 \<Longrightarrow> scratch_copy s = s"
  by (simp add: scratch_copy_def args_size_def)

lemma name_value_render:
  "CHR ''='' \<notin> set (fst nv) \<Longrightarrow> name_value (render_pair nv) = nv"
  by (simp add: render_pair_def name_value_append)

lemma map_name_value_render:
  "\<forall>nv\<in>set nvs. CHR ''='' \<notin> set (fst nv) \<Longrightarrow> map name_value (map render_pair nvs) = nvs"
  by (induction nvs) (simp_all add: name_value_render)

lemma pairs_from_rendered:
  assumes "\<forall>nv\<in>set nvs. CHR '','' \<notin> set (fst nv) \<and> CHR ''='' \<notin> set (fst nv) \<and> CHR '','' \<notin> set (snd nv)"
  shows "pairs_from n (Some (join_pairs (map render_pair nvs))) = take n nvs"
proof -
  have a: "\<forall>p\<in>set (map render_pair nvs). CHR '','' \<notin> set p"
    using assms by (auto simp: render_pair_def)
  have b: "map render_pair nvs \<noteq> [] \<Longrightarrow> last (map render_pair nvs) \<noteq> []"
    by (simp add: last_map render_pair_def)
  have c: "\<forall>nv\<in>set (take n nvs). CHR ''='' \<notin> set (fst nv)"
    using assms by (auto dest: in_set_takeD)
  show ?thesis
    using pairs_from_join [OF a b, of n] map_name_value_render [OF c]
    by (simp add: take_map)
qed

lemma parse_profile_text:
  assumes d: "CHR '':'' \<notin> set d"
    and nvs: "\<forall>nv\<in>set nvs. CHR '','' \<notin> set (fst nv) \<and> CHR ''='' \<notin> set (fst nv) \<and> CHR '','' \<notin> set (snd nv)"
    and len: "length (profile_text d nvs) \<le> 1023"
  shows "parse_profile (profile_text d nvs) = (d, arrays_of (take 32 nvs))"
  using len
  by (simp add: parse_profile_def scratch_copy_short)
     (simp add: profile_text_def split_profile_colon' [OF d] pairs_from_rendered [OF nvs])

subsection \<open>Runs of the program\<close>

text \<open>
  Claim C1. A run whose profile resolves to a driver name that no registered driver has
  shall report the failure, never start the server loop, and exit with a non-zero status.
  The run \<^verbatim>\<open>txvc -p ghost\<close> with an empty alias table and the registry holding the driver
  \<open>jtag\<close>: the error is logged and the server loop is not started, but the exit status is
  0, the \<^verbatim>\<open>return 0\<close> of line 243 that the successful run shares.
\<close>

theorem main_ghost:
  \<open>main []
     [\<lparr>name = ''jtag'', help_text = [], activate = (\<lambda>ns vs. True), deactivate = (\<lambda>u. True)\<rparr>]
     ''txvc''
     (Some \<lparr>opt_serverAddr = None, opt_profile = Some ''ghost'', opt_verbose = False,
            opt_help = False\<rparr>)
     []
   = (0, [SetLogMinLevel False, ListenForUserInterrupt,
          LogError (''Can not find driver "ghost"'' @ [CHR 0x0A])])\<close>
  by (simp add: main_def parse_cli_options_def activate_driver_def parse_profile_def
        scratch_copy_def args_size_def split_profile_def cut_at_def find_by_name_def)

lemma activate_driver_not_found:
  assumes "\<forall>d\<in>set drivers. name d \<noteq> fst (parse_profile (fst (alias_loop aliases prof)))"
  shows \<open>activate_driver aliases drivers prof =
          (None, snd (alias_loop aliases prof) @
             [LogError (''Can not find driver "'' @ fst (parse_profile (fst (alias_loop aliases prof)))
                        @ ''"'' @ [CHR 0x0A])])\<close>
proof -
  have "find (\<lambda>d. name d = fst (parse_profile (fst (alias_loop aliases prof)))) drivers = None"
    using assms by (simp add: find_None_iff)
  then show ?thesis
    by (simp add: activate_driver_def enumerate_find split_beta)
qed

lemma alias_loop_events: "\<forall>e\<in>set (snd (alias_loop aliases prof)). \<exists>m. e = LogInfo m"
  by (induction aliases arbitrary: prof) (auto simp: split_beta)

lemma alias_loop_no_Activate: "filter is_Activate (snd (alias_loop aliases prof)) = []"
  using alias_loop_events [of aliases prof] by (auto simp: filter_empty_conv)

lemma alias_loop_no_RunServer: "filter is_RunServer (snd (alias_loop aliases prof)) = []"
  using alias_loop_events [of aliases prof] by (auto simp: filter_empty_conv)

lemma activate_driver_Activate_count:
  "length (filter is_Activate (snd (activate_driver aliases drivers prof))) \<le> 1"
  by (simp add: activate_driver_def split_beta alias_loop_no_Activate split: option.split)

lemma activate_driver_no_RunServer:
  "filter is_RunServer (snd (activate_driver aliases drivers prof)) = []"
  by (simp add: activate_driver_def split_beta alias_loop_no_RunServer split: option.split)

lemma main_unresolved_driver:
  assumes "\<forall>d\<in>set drivers. name d \<noteq> fst (parse_profile (fst (alias_loop aliases prof)))"
    and "\<not> opt_help opts" and "opt_profile opts = Some prof"
  shows "fst (main aliases drivers progname (Some opts) []) = 0"
    and "filter is_RunServer (snd (main aliases drivers progname (Some opts) [])) = []"
    and "filter is_LogError (snd (main aliases drivers progname (Some opts) [])) \<noteq> []"
  using assms(2,3)
  by (simp_all add: main_def parse_cli_options_def Let_def
        activate_driver_not_found [OF assms(1)] alias_loop_no_RunServer)

lemma activate_driver_lookup_failed:
  assumes "txvc_enumerate_drivers find_by_name
             (fst (parse_profile (fst (alias_loop aliases prof)))) drivers = None"
  shows "filter is_Activate (snd (activate_driver aliases drivers prof)) = []"
  using assms by (simp add: activate_driver_def split_beta alias_loop_no_Activate)

lemma main_events_Activate:
  "filter is_Activate (snd (main aliases drivers progname cli operands)) = [] \<or>
   (\<exists>opts prof. cli = Some opts \<and> \<not> opt_help opts \<and> opt_profile opts = Some prof \<and>
      filter is_Activate (snd (main aliases drivers progname cli operands))
        = filter is_Activate (snd (activate_driver aliases drivers prof)))"
  by (simp add: main_def parse_cli_options_def split_beta Let_def split: option.split)

text \<open>
  Claim C9. In every run, a driver's \<^verbatim>\<open>activate\<close> is called at most once; and in a run in
  which the lookup of the parsed driver name in the registry finds no driver (as it does
  when no registered driver has that name), it is not called at all.
\<close>

theorem activation_at_most_once:
  "length (filter is_Activate (snd (main aliases drivers progname cli operands))) \<le> 1 \<and>
   (\<forall>opts prof. cli = Some opts \<and> \<not> opt_help opts \<and> opt_profile opts = Some prof \<and>
      txvc_enumerate_drivers find_by_name
        (fst (parse_profile (fst (alias_loop aliases prof)))) drivers = None
      \<longrightarrow> filter is_Activate (snd (main aliases drivers progname cli operands)) = []) \<and>
   (\<forall>opts prof. cli = Some opts \<and> \<not> opt_help opts \<and> opt_profile opts = Some prof \<and>
      (\<forall>d\<in>set drivers. name d \<noteq> fst (parse_profile (fst (alias_loop aliases prof))))
      \<longrightarrow> filter is_Activate (snd (main aliases drivers progname cli operands)) = [])"
proof (intro conjI allI impI)
  show "length (filter is_Activate (snd (main aliases drivers progname cli operands))) \<le> 1"
    using main_events_Activate [of aliases drivers progname cli operands]
      activate_driver_Activate_count [of aliases drivers]
    by auto
next
  fix opts prof
  assume a: "cli = Some opts \<and> \<not> opt_help opts \<and> opt_profile opts = Some prof \<and>
      txvc_enumerate_drivers find_by_name
        (fst (parse_profile (fst (alias_loop aliases prof)))) drivers = None"
  then have "filter is_Activate (snd (activate_driver aliases drivers prof)) = []"
    by (simp add: activate_driver_lookup_failed)
  then show "filter is_Activate (snd (main aliases drivers progname cli operands)) = []"
    using a main_events_Activate [of aliases drivers progname cli operands] by auto
next
  fix opts prof
  assume a: "cli = Some opts \<and> \<not> opt_help opts \<and> opt_profile opts = Some prof \<and>
      (\<forall>d\<in>set drivers. name d \<noteq> fst (parse_profile (fst (alias_loop aliases prof))))"
  then have "find (\<lambda>d. name d = fst (parse_profile (fst (alias_loop aliases prof)))) drivers = None"
    by (simp add: find_None_iff)
  then have "txvc_enumerate_drivers find_by_name
        (fst (parse_profile (fst (alias_loop aliases prof)))) drivers = None"
    by (simp add: enumerate_find)
  then have "filter is_Activate (snd (activate_driver aliases drivers prof)) = []"
    by (simp add: activate_driver_lookup_failed)
  then show "filter is_Activate (snd (main aliases drivers progname cli operands)) = []"
    using a main_events_Activate [of aliases drivers progname cli operands] by auto
qed

theorem activation_at_most_once_witness:
  "name \<lparr>name = ''jtag'', help_text = [], activate = (\<lambda>ns vs. True), deactivate = (\<lambda>u. True)\<rparr>
     \<noteq> fst (parse_profile (fst (alias_loop [] ''ghost''))) \<and>
   txvc_enumerate_drivers find_by_name (fst (parse_profile (fst (alias_loop [] ''ghost''))))
     [\<lparr>name = ''jtag'', help_text = [], activate = (\<lambda>ns vs. True), deactivate = (\<lambda>u. True)\<rparr>]
     = None \<and>
   length (filter is_Activate (snd (main []
     [\<lparr>name = ''jtag'', help_text = [], activate = (\<lambda>ns vs. True), deactivate = (\<lambda>u. True)\<rparr>]
     ''txvc''
     (Some \<lparr>opt_serverAddr = None, opt_profile = Some ''ghost'', opt_verbose = False,
            opt_help = False\<rparr>) []))) \<le> 1 \<and>
   filter is_Activate (snd (main []
     [\<lparr>name = ''jtag'', help_text = [], activate = (\<lambda>ns vs. True), deactivate = (\<lambda>u. True)\<rparr>]
     ''txvc''
     (Some \<lparr>opt_serverAddr = None, opt_profile = Some ''ghost'', opt_verbose = False,
            opt_help = False\<rparr>) [])) = []"
proof -
  have n: "fst (parse_profile ''ghost'') = ''ghost''"
    by (simp add: parse_profile_def scratch_copy_def args_size_def split_profile_no_colon)
  show ?thesis
    using activation_at_most_once [of "[]"
      "[\<lparr>name = ''jtag'', help_text = [], activate = (\<lambda>ns vs. True), deactivate = (\<lambda>u. True)\<rparr>]"
      "''txvc''"
      "Some \<lparr>opt_serverAddr = None, opt_profile = Some ''ghost'', opt_verbose = False,
            opt_help = False\<rparr>" "[]"]
    by (simp add: n find_by_name_def)
qed

text \<open>
  Claim C2, as stated: on an alias table whose aliases form a cycle the substitution loops
  forever. It does not: on the self-referential table \<open>a \<rightarrow> a\<close> the loop returns \<open>a\<close> after
  one substitution, on the mutually referential table \<open>a \<rightarrow> b, b \<rightarrow> a\<close> it returns \<open>a\<close> after
  two.
\<close>

theorem alias_cycle_returns:
  "alias_loop [\<lparr>alias_name = ''a'', profile = ''a'', description = ''self''\<rparr>] ''a''
     = (''a'', [LogInfo (''Found alias a (self),'' @ [CHR 0x0A]),
               LogInfo (''using profile a'' @ [CHR 0x0A])]) \<and>
   fst (alias_loop [\<lparr>alias_name = ''a'', profile = ''b'', description = ''to b''\<rparr>,
                    \<lparr>alias_name = ''b'', profile = ''a'', description = ''to a''\<rparr>] ''a'') = ''a'' \<and>
   length (filter is_alias_found
     (snd (alias_loop [\<lparr>alias_name = ''a'', profile = ''b'', description = ''to b''\<rparr>,
                       \<lparr>alias_name = ''b'', profile = ''a'', description = ''to a''\<rparr>] ''a''))) = 2"
  by simp

text \<open>
  Claim C2, amended: for every alias table and profile string the substitution is one pass
  over the table, which returns, having made at most one substitution per table entry.
\<close>

theorem alias_loop_single_pass:
  "\<exists>p evs. alias_loop aliases prof = (p, evs) \<and>
     length (filter is_alias_found evs) \<le> length aliases"
  using alias_loop_count [of aliases prof] by (cases "alias_loop aliases prof") simp

text \<open>
  Claim C3, as stated: for every profile string without \<open>:\<close> the parsed driver name is the
  whole string. A string of 1024 characters \<open>a\<close> has no \<open>:\<close>, and its parsed driver name is
  its first 1023 characters only.
\<close>

theorem no_colon_long_counterexample:
  "CHR '':'' \<notin> set (replicate 1024 CHR ''a'') \<and>
   fst (parse_profile (replicate 1024 CHR ''a'')) \<noteq> replicate 1024 CHR ''a''"
proof -
  have "fst (parse_profile (replicate 1024 CHR ''a'')) = replicate 1023 CHR ''a''"
    by (simp add: parse_profile_def scratch_copy_def args_size_def split_profile_no_colon)
  moreover have "replicate 1023 CHR ''a'' \<noteq> replicate 1024 CHR ''a''"
  proof
    assume "replicate 1023 CHR ''a'' = replicate 1024 CHR ''a''"
    then have "length (replicate 1023 CHR ''a'') = length (replicate 1024 CHR ''a'')"
      by (rule arg_cong)
    then show False by simp
  qed
  ultimately show ?thesis by simp
qed

text \<open>
  Claim C3, amended: for every profile string without \<open>:\<close>, parsing yields the first 1023
  bytes of the string as the driver name, which is the whole string when it has at most
  1023 bytes, and no argument pair (every slot of both arrays is \<^verbatim>\<open>NULL\<close>).
\<close>

theorem no_colon_whole_name:
  "CHR '':'' \<notin> set prof \<Longrightarrow>
   parse_profile prof = (take 1023 prof, replicate 32 None, replicate 32 None) \<and>
   arg_pairs (snd (parse_profile prof)) = [] \<and>
   (length prof \<le> 1023 \<longrightarrow> fst (parse_profile prof) = prof)"
proof -
  assume a: "CHR '':'' \<notin> set prof"
  then have "CHR '':'' \<notin> set (take 1023 prof)"
    by (auto dest: in_set_takeD)
  then have "parse_profile prof = (take 1023 prof, replicate 32 None, replicate 32 None)"
    by (simp add: parse_profile_def scratch_copy_def args_size_def split_profile_no_colon)
  then show ?thesis
    using arg_pairs_empty [of 32] by simp
qed

theorem no_colon_whole_name_witness:
  "CHR '':'' \<notin> set ''ghost'' \<and> length ''ghost'' \<le> 1023 \<and>
   parse_profile ''ghost'' = (''ghost'', replicate 32 None, replicate 32 None) \<and>
   arg_pairs (snd (parse_profile ''ghost'')) = []"
  using no_colon_whole_name [of "''ghost''"] by (simp add: arg_pairs_empty)

text \<open>
  Claim C7. A profile string longer than the 1024 bytes of the scratch buffer is cut to the
  1023 characters that fit in front of the terminating NUL, and the result of parsing it is
  the result of parsing that prefix (and so of parsing its first 1024 bytes); parsing does
  not fail.
\<close>

theorem scratch_truncation:
  "1024 < length prof \<Longrightarrow>
   scratch_copy prof = take 1023 prof \<and> length (scratch_copy prof) = 1023 \<and>
   parse_profile prof = split_profile (take 1023 prof) \<and>
   parse_profile prof = parse_profile (take 1023 prof) \<and>
   parse_profile prof = parse_profile (take 1024 prof)"
  by (simp add: parse_profile_def scratch_copy_def args_size_def)

theorem scratch_truncation_witness:
  "1024 < length (''jtag:freq='' @ replicate 1100 CHR ''9'') \<and>
   parse_profile (''jtag:freq='' @ replicate 1100 CHR ''9'')
     = parse_profile (''jtag:freq='' @ replicate 1013 CHR ''9'')"
proof -
  have h: "1024 < length (''jtag:freq='' @ replicate 1100 CHR ''9'')"
    by simp
  from scratch_truncation [OF h]
  have "parse_profile (''jtag:freq='' @ replicate 1100 CHR ''9'')
          = parse_profile (take 1023 (''jtag:freq='' @ replicate 1100 CHR ''9''))"
    by blast
  moreover have "take 1023 (''jtag:freq='' @ replicate 1100 CHR ''9'')
          = ''jtag:freq='' @ replicate 1013 CHR ''9''"
    by simp
  ultimately show ?thesis using h by simp
qed

text \<open>
  Claim C8. A profile string that equals no alias of the table, or that the substitution
  maps to itself, is left unchanged by the substitution, and so by applying it again.
\<close>

theorem alias_fixed_point:
  "(\<forall>a\<in>set aliases. alias_name a \<noteq> prof) \<or> fst (alias_loop aliases prof) = prof \<Longrightarrow>
   fst (alias_loop aliases prof) = prof \<and>
   fst (alias_loop aliases (fst (alias_loop aliases prof))) = fst (alias_loop aliases prof)"
  by (auto simp: alias_loop_no_match)

theorem alias_fixed_point_witness:
  "alias_name \<lparr>alias_name = ''unknownboard'', profile = ''jtag:freq=500000'',
                 description = ''board''\<rparr> \<noteq> ''jtag:freq=500000'' \<and>
   fst (alias_loop [\<lparr>alias_name = ''unknownboard'', profile = ''jtag:freq=500000'',
                     description = ''board''\<rparr>] ''jtag:freq=500000'') = ''jtag:freq=500000'' \<and>
   fst (alias_loop [\<lparr>alias_name = ''unknownboard'', profile = ''jtag:freq=500000'',
                     description = ''board''\<rparr>]
          (fst (alias_loop [\<lparr>alias_name = ''unknownboard'', profile = ''jtag:freq=500000'',
                     description = ''board''\<rparr>] ''jtag:freq=500000''))) = ''jtag:freq=500000''"
  using alias_fixed_point [of "[\<lparr>alias_name = ''unknownboard'', profile = ''jtag:freq=500000'',
                 description = ''board''\<rparr>]" "''jtag:freq=500000''"] by simp

subsection \<open>Parsing of profile strings\<close>

lemma join_pairs_snoc_empty: "qs \<noteq> [] \<Longrightarrow> join_pairs (qs @ [[]]) = join_pairs qs @ '',''"
  by (induction qs rule: join_pairs.induct) simp_all

lemma pairs_from_join_sep:
  "qs \<noteq> [] \<Longrightarrow> \<forall>p\<in>set qs. CHR '','' \<notin> set p \<Longrightarrow>
   pairs_from n (Some (join_pairs qs @ '','')) = map name_value (take n qs)"
proof (induction qs arbitrary: n rule: join_pairs.induct)
  case 1
  then show ?case by simp
next
  case (2 p)
  then have p: "CHR '','' \<notin> set p" by simp
  show ?case
  proof (cases n)
    case 0
    then show ?thesis by simp
  next
    case (Suc k)
    then show ?thesis using cut_at_append [OF p, of "[]"] by (simp add: pairs_from_Nil)
  qed
next
  case (3 p q ps)
  then have p: "CHR '','' \<notin> set p" by simp
  show ?case
  proof (cases n)
    case 0
    then show ?thesis by simp
  next
    case (Suc k)
    have "pairs_from k (Some (join_pairs (q # ps) @ '','')) = map name_value (take k (q # ps))"
      using "3.IH" [of k] "3.prems" by simp
    then show ?thesis
      using Suc cut_at_append [OF p, of "join_pairs (q # ps) @ '',''"] by simp
  qed
qed

lemma pairs_from_join_gen:
  assumes "\<forall>p\<in>set ps. CHR '','' \<notin> set p"
  shows "pairs_from n (Some (join_pairs ps))
           = map name_value (take n (if ps \<noteq> [] \<and> last ps = [] then butlast ps else ps))"
proof (cases "ps \<noteq> [] \<and> last ps = []")
  case False
  then show ?thesis using pairs_from_join [OF assms, of n] by auto
next
  case True
  then have ps: "ps = butlast ps @ [[]]"
    by (metis append_butlast_last_id)
  show ?thesis
  proof (cases "butlast ps = []")
    case True
    with ps have "ps = [[]]" by simp
    then show ?thesis by (simp add: pairs_from_Nil)
  next
    case False
    have b: "\<forall>p\<in>set (butlast ps). CHR '','' \<notin> set p"
      using assms by (auto dest: in_set_butlastD)
    have "join_pairs ps = join_pairs (butlast ps) @ '',''"
      using join_pairs_snoc_empty [OF False] ps by simp
    then show ?thesis
      using pairs_from_join_sep [OF False b, of n] True by simp
  qed
qed

lemma parse_profile_join_gen:
  assumes d: "CHR '':'' \<notin> set d"
    and ps: "\<forall>p\<in>set ps. CHR '','' \<notin> set p"
    and len: "length (d @ CHR '':'' # join_pairs ps) \<le> 1023"
  shows "parse_profile (d @ CHR '':'' # join_pairs ps)
    = (d, arrays_of (map name_value
            (take 32 (if ps \<noteq> [] \<and> last ps = [] then butlast ps else ps))))"
proof -
  have "parse_profile (d @ CHR '':'' # join_pairs ps) = split_profile (d @ CHR '':'' # join_pairs ps)"
    unfolding parse_profile_def using scratch_copy_short [OF len] by simp
  also have "\<dots> = (d, arrays_of (pairs_from 32 (Some (join_pairs ps))))"
    by (rule split_profile_colon' [OF d])
  finally show ?thesis
    by (simp only: pairs_from_join_gen [OF ps])
qed

text \<open>
  Claim C10, as stated: for every profile string, a separator at the end with nothing behind
  it adds no argument pair. A \<open>,\<close> that directly follows the \<open>:\<close> or another \<open>,\<close> ends an
  empty pair text, and the loop emits that pair with an empty name: \<open>d:,\<close> yields one pair
  where \<open>d:\<close> yields none, and \<open>d:a=1,,\<close> yields two where \<open>d:a=1,\<close> yields one.
\<close>

theorem trailing_separator_counterexample:
  "arg_pairs (snd (parse_profile ''d:'')) = [] \<and>
   arg_pairs (snd (parse_profile ''d:,'')) = [([], [])] \<and>
   arg_pairs (snd (parse_profile ''d:a=1,'')) = [(''a'', ''1'')] \<and>
   arg_pairs (snd (parse_profile ''d:a=1,,'')) = [(''a'', ''1''), ([], [])]"
proof -
  have n: "name_value ''a=1'' = (''a'', ''1'')" "name_value [] = ([], [])"
    using name_value_append [of "''a''" "''1''"] name_value_absent [of "[]"] by simp_all
  have "parse_profile (''d'' @ CHR '':'' # join_pairs [])
          = (''d'', arrays_of (map name_value (take 32 [])))"
    using parse_profile_join_gen [of "''d''" "[]"] by simp
  then have a: "arg_pairs (snd (parse_profile ''d:'')) = []"
    by (simp add: arg_pairs_arrays_of)
  have "parse_profile (''d'' @ CHR '':'' # join_pairs [[], []])
          = (''d'', arrays_of (map name_value (take 32 [[]])))"
    using parse_profile_join_gen [of "''d''" "[[], []]"] by simp
  then have b: "arg_pairs (snd (parse_profile ''d:,'')) = [([], [])]"
    by (simp add: arg_pairs_arrays_of n)
  have "parse_profile (''d'' @ CHR '':'' # join_pairs [''a=1'', []])
          = (''d'', arrays_of (map name_value (take 32 [''a=1''])))"
    using parse_profile_join_gen [of "''d''" "[''a=1'', []]"] by simp
  then have c: "arg_pairs (snd (parse_profile ''d:a=1,'')) = [(''a'', ''1'')]"
    by (simp add: arg_pairs_arrays_of n)
  have "parse_profile (''d'' @ CHR '':'' # join_pairs [''a=1'', [], []])
          = (''d'', arrays_of (map name_value (take 32 [''a=1'', []])))"
    using parse_profile_join_gen [of "''d''" "[''a=1'', [], []]"] by simp
  then have d: "arg_pairs (snd (parse_profile ''d:a=1,,'')) = [(''a'', ''1''), ([], [])]"
    by (simp add: arg_pairs_arrays_of n)
  from a b c d show ?thesis by simp
qed

text \<open>
  Claim C10, amended: \<open>d:\<close> parses as \<open>d\<close> does, for every driver name \<open>d\<close> without \<open>:\<close>; and
  a profile string \<open>d:rest\<close> whose argument text \<open>rest\<close> is not empty and does not end in
  \<open>,\<close> parses the same with a \<open>,\<close> appended, as \<open>d:a=1,\<close> parses as \<open>d:a=1\<close> does. The pair
  loop stops at once on an empty remaining text instead of emitting an empty-named pair.
\<close>

theorem trailing_separator:
  "CHR '':'' \<notin> set d \<Longrightarrow>
   parse_profile (d @ '':'') = parse_profile d \<and>
   (rest \<noteq> [] \<and> last rest \<noteq> CHR '','' \<longrightarrow>
      parse_profile (d @ CHR '':'' # rest @ '','') = parse_profile (d @ CHR '':'' # rest)) \<and>
   pair_loop i (Some []) ns vs = (ns, vs)"
proof (intro conjI impI)
  assume d: "CHR '':'' \<notin> set d"
  show "parse_profile (d @ '':'') = parse_profile d"
  proof (cases "length d < 1023")
    case True
    then have "parse_profile (d @ '':'') = split_profile (d @ CHR '':'' # [])"
      by (simp add: parse_profile_def scratch_copy_def args_size_def)
    also have "\<dots> = (d, arrays_of [])"
      by (simp add: split_profile_colon' [OF d] pairs_from_Nil)
    also have "\<dots> = parse_profile d"
      using True by (simp add: parse_profile_def scratch_copy_short split_profile_no_colon' [OF d])
    finally show ?thesis .
  next
    case False
    then show ?thesis
      by (simp add: parse_profile_def scratch_copy_def args_size_def)
  qed
  show "pair_loop i (Some []) ns vs = (ns, vs)"
    by (simp add: pair_loop_stop)
  assume r: "rest \<noteq> [] \<and> last rest \<noteq> CHR '',''"
  show "parse_profile (d @ CHR '':'' # rest @ '','') = parse_profile (d @ CHR '':'' # rest)"
  proof (cases "length (d @ CHR '':'' # rest) < 1023")
    case True
    then have "parse_profile (d @ CHR '':'' # rest @ '','')
        = split_profile (d @ CHR '':'' # rest @ '','')"
      by (simp add: parse_profile_def scratch_copy_def args_size_def)
    also have "\<dots> = (d, arrays_of (pairs_from 32 (Some (rest @ '',''))))"
      by (rule split_profile_colon' [OF d])
    also have "\<dots> = (d, arrays_of (pairs_from 32 (Some rest)))"
      using r by (simp add: pairs_from_trailing)
    also have "\<dots> = split_profile (d @ CHR '':'' # rest)"
      by (rule split_profile_colon' [OF d, symmetric])
    also have "\<dots> = parse_profile (d @ CHR '':'' # rest)"
      using True by (simp add: parse_profile_def scratch_copy_def args_size_def)
    finally show ?thesis .
  next
    case False
    define s where "s = d @ CHR '':'' # rest"
    have l: "\<not> length s < 1023" using False by (simp add: s_def)
    have e: "d @ CHR '':'' # rest @ '','' = s @ '',''"
      by (simp add: s_def)
    have "take 1023 (s @ '','') = take 1023 s"
      using l by simp
    then show ?thesis
      unfolding e s_def [symmetric]
      by (simp add: parse_profile_def scratch_copy_def args_size_def)
  qed
qed

theorem trailing_separator_witness:
  "CHR '':'' \<notin> set ''d'' \<and> parse_profile ''d:'' = parse_profile ''d'' \<and>
   ''a=1'' \<noteq> [] \<and> last ''a=1'' \<noteq> CHR '','' \<and>
   parse_profile ''d:a=1,'' = parse_profile ''d:a=1''"
  using trailing_separator [of "''d''" "''a=1''"] by simp

lemma length_join_pairs: "length (join_pairs ps) \<le> sum_list (map (\<lambda>p. Suc (length p)) ps)"
  by (induction ps rule: join_pairs.induct) simp_all

lemma parse_profile_join:
  assumes d: "CHR '':'' \<notin> set d"
    and ps: "\<forall>p\<in>set ps. CHR '','' \<notin> set p" "ps \<noteq> [] \<Longrightarrow> last ps \<noteq> []"
    and len: "length (d @ CHR '':'' # join_pairs ps) \<le> 1023"
  shows "parse_profile (d @ CHR '':'' # join_pairs ps) = (d, arrays_of (map name_value (take 32 ps)))"
proof -
  have "parse_profile (d @ CHR '':'' # join_pairs ps) = split_profile (d @ CHR '':'' # join_pairs ps)"
    unfolding parse_profile_def using scratch_copy_short [OF len] by simp
  also have "\<dots> = (d, arrays_of (pairs_from 32 (Some (join_pairs ps))))"
    by (rule split_profile_colon' [OF d])
  also have "pairs_from 32 (Some (join_pairs ps)) = map name_value (take 32 ps)"
    using ps by (rule pairs_from_join)
  finally show ?thesis .
qed

lemma arrays_of_nth:
  "i < length ps \<Longrightarrow> fst (arrays_of ps) ! i = Some (fst (ps ! i)) \<and>
     snd (arrays_of ps) ! i = Some (snd (ps ! i))"
  by (simp add: arrays_of_def nth_append)

lemma length_arrays_of:
  "length ps \<le> 32 \<Longrightarrow> length (fst (arrays_of ps)) = 32 \<and> length (snd (arrays_of ps)) = 32"
  by (simp add: arrays_of_def)

text \<open>
  Claim C5, as stated: for every argument pair without \<open>=\<close>, parsing yields the pair's whole
  text as the name and the empty string as the value. The pair \<open>flag\<close> at place 33 of a
  profile string is not in the arrays at all; the pair \<open>k...kflag\<close> of \<open>d:k...kflag\<close>, 1025
  bytes long, is cut with the string at byte 1023 and yields the name \<open>k...kfl\<close>; and the
  empty text behind the \<open>,\<close> of \<open>d:a,\<close> yields no pair.
\<close>

theorem pair_without_equals_counterexample:
  "(replicate 32 ''a=1'' @ [''flag'']) ! 32 = ''flag'' \<and>
   fst (snd (parse_profile (''d'' @ CHR '':'' # join_pairs (replicate 32 ''a=1'' @ [''flag''])))) =
     replicate 32 (Some ''a'') \<and>
   Some ''flag'' \<notin>
     set (fst (snd (parse_profile (''d'' @ CHR '':'' # join_pairs (replicate 32 ''a=1'' @ [''flag'']))))) \<and>
   fst (snd (parse_profile (''d:'' @ replicate 1019 CHR ''k'' @ ''flag''))) ! 0
     = Some (replicate 1019 CHR ''k'' @ ''fl'') \<and>
   replicate 1019 CHR ''k'' @ ''fl'' \<noteq> replicate 1019 CHR ''k'' @ ''flag'' \<and>
   fst (snd (parse_profile ''d:a,'')) ! 0 = Some ''a'' \<and>
   fst (snd (parse_profile ''d:a,'')) ! 1 = None"
proof -
  have n: "name_value ''a=1'' = (''a'', ''1'')" "name_value ''a'' = (''a'', [])"
    using name_value_append [of "''a''" "''1''"] name_value_absent [of "''a''"] by simp_all
  have l: "length (''d'' @ CHR '':'' # join_pairs (replicate 32 ''a=1'' @ [''flag''])) \<le> 1023"
    using length_join_pairs [of "replicate 32 ''a=1'' @ [''flag'']"]
    by (simp add: sum_list_replicate)
  have "parse_profile (''d'' @ CHR '':'' # join_pairs (replicate 32 ''a=1'' @ [''flag'']))
          = (''d'', arrays_of (map name_value (take 32 (replicate 32 ''a=1'' @ [''flag'']))))"
    by (rule parse_profile_join [OF _ _ _ l]) simp_all
  then have a: "fst (snd (parse_profile
        (''d'' @ CHR '':'' # join_pairs (replicate 32 ''a=1'' @ [''flag''])))) =
     replicate 32 (Some ''a'')"
    by (simp add: arrays_of_def n)
  have k: "CHR '':'' \<notin> set ''d''" by simp
  have t: "take 1023 (''d:'' @ replicate 1019 CHR ''k'' @ ''flag'')
             = ''d'' @ CHR '':'' # (replicate 1019 CHR ''k'' @ ''fl'')"
    by simp
  have p: "pairs_from 32 (Some (join_pairs [replicate 1019 CHR ''k'' @ ''fl'']))
             = map name_value (take 32 [replicate 1019 CHR ''k'' @ ''fl''])"
    by (rule pairs_from_join) simp_all
  have v: "name_value (replicate 1019 CHR ''k'' @ ''fl'') = (replicate 1019 CHR ''k'' @ ''fl'', [])"
    by (rule name_value_absent) simp
  have "parse_profile (''d:'' @ replicate 1019 CHR ''k'' @ ''flag'')
          = split_profile (''d'' @ CHR '':'' # (replicate 1019 CHR ''k'' @ ''fl''))"
    unfolding parse_profile_def scratch_copy_def args_size_def using t by simp
  also have "\<dots> = (''d'', arrays_of [(replicate 1019 CHR ''k'' @ ''fl'', [])])"
    unfolding split_profile_colon' [OF k] using p v by simp
  finally have b: "fst (snd (parse_profile (''d:'' @ replicate 1019 CHR ''k'' @ ''flag''))) ! 0
     = Some (replicate 1019 CHR ''k'' @ ''fl'')"
    by (simp add: arrays_of_def)
  have c: "replicate 1019 CHR ''k'' @ ''fl'' \<noteq> replicate 1019 CHR ''k'' @ ''flag''"
    by simp
  have "parse_profile (''d'' @ CHR '':'' # join_pairs [''a'', []])
          = (''d'', arrays_of (map name_value (take 32 [''a''])))"
    using parse_profile_join_gen [of "''d''" "[''a'', []]"] by simp
  then have d: "fst (snd (parse_profile ''d:a,'')) ! 0 = Some ''a''"
    "fst (snd (parse_profile ''d:a,'')) ! 1 = None"
    by (simp_all add: arrays_of_def n)
  have e: "(replicate 32 ''a=1'' @ [''flag'']) ! 32 = ''flag''"
    by (simp add: nth_append)
  from a b c d e show ?thesis by simp
qed

text \<open>
  Claim C5, amended: for every argument pair without \<open>=\<close> that is one of the first 32 pairs
  of a profile string of at most 1023 bytes, and is not the empty text behind the last
  separator, parsing yields the pair's whole text as the name and the empty string as the
  value, in the slot of the pair; the loop body splits every pair text without \<open>=\<close> so.
  Here the profile string is \<open>d:p0,p1,...\<close>, with the driver name \<open>d\<close> up to the first \<open>:\<close>
  and the pair texts \<open>ps\<close> between the separators \<open>,\<close>.
\<close>

theorem pair_without_equals:
  "CHR ''='' \<notin> set pair \<Longrightarrow>
   name_value pair = (pair, []) \<and>
   (\<forall>d ps i. CHR '':'' \<notin> set d \<and> (\<forall>p\<in>set ps. CHR '','' \<notin> set p) \<and>
      length (d @ CHR '':'' # join_pairs ps) \<le> 1023 \<and> i < length ps \<and> i < 32 \<and> ps ! i = pair \<and>
      (pair \<noteq> [] \<or> Suc i < length ps)
      \<longrightarrow> fst (snd (parse_profile (d @ CHR '':'' # join_pairs ps))) ! i = Some pair \<and>
          snd (snd (parse_profile (d @ CHR '':'' # join_pairs ps))) ! i = Some [])"
proof (intro conjI allI impI)
  assume e: "CHR ''='' \<notin> set pair"
  then show nv: "name_value pair = (pair, [])"
    by (rule name_value_absent)
  fix d ps i
  assume a: "CHR '':'' \<notin> set d \<and> (\<forall>p\<in>set ps. CHR '','' \<notin> set p) \<and>
      length (d @ CHR '':'' # join_pairs ps) \<le> 1023 \<and> i < length ps \<and> i < 32 \<and> ps ! i = pair \<and>
      (pair \<noteq> [] \<or> Suc i < length ps)"
  define qs where "qs = (if ps \<noteq> [] \<and> last ps = [] then butlast ps else ps)"
  from a have p: "parse_profile (d @ CHR '':'' # join_pairs ps)
      = (d, arrays_of (map name_value (take 32 qs)))"
    unfolding qs_def by (intro parse_profile_join_gen) simp_all
  have iq: "i < length qs \<and> qs ! i = pair"
  proof (cases "ps \<noteq> [] \<and> last ps = []")
    case False
    then have "qs = ps" unfolding qs_def by (rule if_not_P)
    then show ?thesis using a by simp
  next
    case True
    have "Suc i < length ps"
    proof (rule ccontr)
      assume "\<not> Suc i < length ps"
      with a have "i = length ps - 1" by auto
      with True have "ps ! i = []" using last_conv_nth [of ps] by auto
      with a \<open>\<not> Suc i < length ps\<close> show False by auto
    qed
    then show ?thesis using True a by (simp add: qs_def nth_butlast)
  qed
  have i: "i < length (map name_value (take 32 qs))"
    using a iq by simp
  have n: "map name_value (take 32 qs) ! i = (pair, [])"
    using a iq nv by simp
  show "fst (snd (parse_profile (d @ CHR '':'' # join_pairs ps))) ! i = Some pair"
    using arrays_of_nth [OF i] by (simp add: p n)
  show "snd (snd (parse_profile (d @ CHR '':'' # join_pairs ps))) ! i = Some []"
    using arrays_of_nth [OF i] by (simp add: p n)
qed

theorem pair_without_equals_witness:
  "CHR ''='' \<notin> set ''flag'' \<and> name_value ''flag'' = (''flag'', []) \<and>
   fst (snd (parse_profile ''d:flag'')) ! 0 = Some ''flag'' \<and>
   snd (snd (parse_profile ''d:flag'')) ! 0 = Some []"
  using pair_without_equals [of "''flag''", THEN conjunct2, THEN spec, THEN spec, THEN spec,
    of "''d''" "[''flag'']" 0]
  by (simp add: name_value_absent)

text \<open>
  Claim C6. For every profile string the two arrays keep their 32 slots and hold at most
  32 pairs; of a profile string with more than 32 pairs the first 32 are collected and the
  others dropped, and the result is an ordinary parse result.
\<close>

theorem at_most_32_pairs:
  "length (fst (snd (parse_profile prof))) = 32 \<and>
   length (snd (snd (parse_profile prof))) = 32 \<and>
   length (arg_pairs (snd (parse_profile prof))) \<le> 32 \<and>
   (\<forall>d ps. CHR '':'' \<notin> set d \<and> (\<forall>p\<in>set ps. CHR '','' \<notin> set p) \<and> ps \<noteq> [] \<and> last ps \<noteq> [] \<and>
      length (d @ CHR '':'' # join_pairs ps) \<le> 1023
      \<longrightarrow> arg_pairs (snd (parse_profile (d @ CHR '':'' # join_pairs ps)))
            = map name_value (take 32 ps))"
proof -
  obtain nm ps where p: "parse_profile prof = (nm, arrays_of ps)" "length ps \<le> 32"
    unfolding parse_profile_def using split_profile_cases by blast
  have a: "length (fst (snd (parse_profile prof))) = 32"
    and b: "length (snd (snd (parse_profile prof))) = 32"
    using length_arrays_of [OF p(2)] by (simp_all add: p(1))
  have c: "length (arg_pairs (snd (parse_profile prof))) \<le> 32"
    using p by (simp add: arg_pairs_arrays_of)
  have d: "arg_pairs (snd (parse_profile (d @ CHR '':'' # join_pairs ps)))
            = map name_value (take 32 ps)"
    if "CHR '':'' \<notin> set d \<and> (\<forall>p\<in>set ps. CHR '','' \<notin> set p) \<and> ps \<noteq> [] \<and> last ps \<noteq> [] \<and>
      length (d @ CHR '':'' # join_pairs ps) \<le> 1023" for d ps
  proof -
    have "parse_profile (d @ CHR '':'' # join_pairs ps)
      = (d, arrays_of (map name_value (take 32 ps)))"
      using that by (intro parse_profile_join) simp_all
    then show ?thesis by (simp add: arg_pairs_arrays_of)
  qed
  from a b c d show ?thesis by blast
qed

theorem at_most_32_pairs_witness:
  "CHR '':'' \<notin> set ''d'' \<and> CHR '','' \<notin> set ''a=1'' \<and> length (replicate 33 ''a=1'') = 33 \<and>
   length (''d'' @ CHR '':'' # join_pairs (replicate 33 ''a=1'')) \<le> 1023 \<and>
   arg_pairs (snd (parse_profile (''d'' @ CHR '':'' # join_pairs (replicate 33 ''a=1''))))
     = replicate 32 (''a'', ''1'')"
proof -
  have l: "length (''d'' @ CHR '':'' # join_pairs (replicate 33 ''a=1'')) \<le> 1023"
    using length_join_pairs [of "replicate 33 ''a=1''"] by (simp add: sum_list_replicate)
  have n: "name_value ''a=1'' = (''a'', ''1'')"
    using name_value_append [of "''a''" "''1''"] by simp
  from at_most_32_pairs [of "''x''", THEN conjunct2, THEN conjunct2, THEN conjunct2,
      THEN spec, THEN spec, of "''d''" "replicate 33 ''a=1''"] l
  have "arg_pairs (snd (parse_profile (''d'' @ CHR '':'' # join_pairs (replicate 33 ''a=1''))))
     = map name_value (take 32 (replicate 33 ''a=1''))"
    by simp
  then show ?thesis using l by (simp add: n)
qed

text \<open>
  Claim C4, as stated: for every well-formed profile string \<open>d:n0=v0,n1=v1,...\<close> parsing
  yields \<open>d\<close> and all the pairs in order, and the driver is activated with exactly these
  pairs. Of 33 pairs only 32 are yielded; a driver name of 1024 characters is cut to 1023;
  and a profile string that is itself an alias of the table is replaced before it is parsed,
  so that the driver is activated with the pairs of the alias's profile.
\<close>

theorem well_formed_counterexample:
  \<open>length (arg_pairs (snd (parse_profile (profile_text ''d'' (replicate 33 (''a'', ''1''))))))
     = 32 \<and>
   arg_pairs (snd (parse_profile (profile_text ''d'' (replicate 33 (''a'', ''1'')))))
     \<noteq> replicate 33 (''a'', ''1'') \<and>
   fst (parse_profile (profile_text (replicate 1024 CHR ''d'') [])) \<noteq> replicate 1024 CHR ''d'' \<and>
   activate_driver
     [\<lparr>alias_name = ''jtag:freq=1'', profile = ''jtag:freq=2'', description = ''two''\<rparr>]
     [\<lparr>name = ''jtag'', help_text = [], activate = (\<lambda>ns vs. True), deactivate = (\<lambda>u. True)\<rparr>]
     (profile_text ''jtag'' [(''freq'', ''1'')])
   = (Some \<lparr>name = ''jtag'', help_text = [], activate = (\<lambda>ns vs. True), deactivate = (\<lambda>u. True)\<rparr>,
      [LogInfo (''Found alias jtag:freq=1 (two),'' @ [CHR 0x0A]),
       LogInfo (''using profile jtag:freq=2'' @ [CHR 0x0A]),
       Activate ''jtag'' (fst (arrays_of [(''freq'', ''2'')])) (snd (arrays_of [(''freq'', ''2'')]))])\<close>
proof -
  have l: "length (profile_text ''d'' (replicate 33 (''a'', ''1''))) \<le> 1023"
    using length_join_pairs [of "map render_pair (replicate 33 (''a'', ''1''))"]
    by (simp add: profile_text_def sum_list_replicate render_pair_def)
  have "parse_profile (profile_text ''d'' (replicate 33 (''a'', ''1'')))
          = (''d'', arrays_of (take 32 (replicate 33 (''a'', ''1''))))"
    by (rule parse_profile_text [OF _ _ l]) simp_all
  then have a: "arg_pairs (snd (parse_profile (profile_text ''d'' (replicate 33 (''a'', ''1'')))))
          = replicate 32 (''a'', ''1'')"
    by (simp add: arg_pairs_arrays_of)
  have b: "replicate 32 (''a'', ''1'') \<noteq> replicate 33 (''a'', ''1'')"
  proof
    assume "replicate 32 (''a'', ''1'') = replicate 33 (''a'', ''1'')"
    then have "length (replicate 32 (''a'', ''1'')) = length (replicate 33 (''a'', ''1''))"
      by (rule arg_cong)
    then show False by simp
  qed
  have "fst (parse_profile (profile_text (replicate 1024 CHR ''d'') [])) = replicate 1023 CHR ''d''"
    by (simp add: profile_text_def parse_profile_def scratch_copy_def args_size_def
          split_profile_no_colon)
  moreover have "replicate 1023 CHR ''d'' \<noteq> replicate 1024 CHR ''d''"
  proof
    assume "replicate 1023 CHR ''d'' = replicate 1024 CHR ''d''"
    then have "length (replicate 1023 CHR ''d'') = length (replicate 1024 CHR ''d'')"
      by (rule arg_cong)
    then show False by simp
  qed
  ultimately have c:
    "fst (parse_profile (profile_text (replicate 1024 CHR ''d'') [])) \<noteq> replicate 1024 CHR ''d''"
    by simp
  have t: "profile_text ''jtag'' [(''freq'', ''1'')] = ''jtag:freq=1''"
    by (simp add: profile_text_def render_pair_def)
  have p: "parse_profile ''jtag:freq=2'' = (''jtag'', arrays_of [(''freq'', ''2'')])"
    using parse_profile_text [of "''jtag''" "[(''freq'', ''2'')]"]
    by (simp add: profile_text_def render_pair_def)
  have d: \<open>activate_driver
     [\<lparr>alias_name = ''jtag:freq=1'', profile = ''jtag:freq=2'', description = ''two''\<rparr>]
     [\<lparr>name = ''jtag'', help_text = [], activate = (\<lambda>ns vs. True), deactivate = (\<lambda>u. True)\<rparr>]
     (profile_text ''jtag'' [(''freq'', ''1'')])
   = (Some \<lparr>name = ''jtag'', help_text = [], activate = (\<lambda>ns vs. True), deactivate = (\<lambda>u. True)\<rparr>,
      [LogInfo (''Found alias jtag:freq=1 (two),'' @ [CHR 0x0A]),
       LogInfo (''using profile jtag:freq=2'' @ [CHR 0x0A]),
       Activate ''jtag'' (fst (arrays_of [(''freq'', ''2'')])) (snd (arrays_of [(''freq'', ''2'')]))])\<close>
    unfolding t by (simp add: activate_driver_def p find_by_name_def split_beta)
  show ?thesis
    using a b c d by simp
qed

text \<open>
  Claim C4, amended: for every well-formed profile string \<open>d:n0=v0,n1=v1,...\<close> (no \<open>:\<close> in
  \<open>d\<close>, no \<open>,\<close> or \<open>=\<close> in a name, no \<open>,\<close> in a value) of at most 32 pairs and at most 1023
  bytes, parsing yields the driver name \<open>d\<close> and the pairs in their textual order; and
  when the string equals no alias of the table and \<open>drv\<close> is the first registered driver
  named \<open>d\<close>, \<open>activate_driver\<close> calls the \<^verbatim>\<open>activate\<close> of \<open>drv\<close> once, with exactly those
  pairs in that order.
\<close>

theorem well_formed_profile:
  assumes "CHR '':'' \<notin> set d"
    and "\<forall>nv\<in>set nvs. CHR '','' \<notin> set (fst nv) \<and> CHR ''='' \<notin> set (fst nv) \<and> CHR '','' \<notin> set (snd nv)"
    and "length nvs \<le> 32"
    and "length (profile_text d nvs) \<le> 1023"
  shows \<open>parse_profile (profile_text d nvs) = (d, arrays_of nvs) \<and>
     arg_pairs (snd (parse_profile (profile_text d nvs))) = nvs \<and>
     (\<forall>aliases drivers drv.
        (\<forall>a\<in>set aliases. alias_name a \<noteq> profile_text d nvs) \<and>
        find (\<lambda>x. name x = d) drivers = Some drv \<longrightarrow>
        activate_driver aliases drivers (profile_text d nvs) =
          (if activate drv (fst (arrays_of nvs)) (snd (arrays_of nvs))
           then (Some drv, [Activate d (fst (arrays_of nvs)) (snd (arrays_of nvs))])
           else (None, [Activate d (fst (arrays_of nvs)) (snd (arrays_of nvs)),
                        LogError (''Failed to activate driver "'' @ d @ ''"'' @ [CHR 0x0A])])))\<close>
proof -
  have p: "parse_profile (profile_text d nvs) = (d, arrays_of nvs)"
    using parse_profile_text [OF assms(1,2,4)] assms(3) by simp
  have q: "arg_pairs (snd (parse_profile (profile_text d nvs))) = nvs"
    by (simp add: p arg_pairs_arrays_of)
  have r: \<open>activate_driver aliases drivers (profile_text d nvs) =
          (if activate drv (fst (arrays_of nvs)) (snd (arrays_of nvs))
           then (Some drv, [Activate d (fst (arrays_of nvs)) (snd (arrays_of nvs))])
           else (None, [Activate d (fst (arrays_of nvs)) (snd (arrays_of nvs)),
                        LogError (''Failed to activate driver "'' @ d @ ''"'' @ [CHR 0x0A])]))\<close>
    if "(\<forall>a\<in>set aliases. alias_name a \<noteq> profile_text d nvs) \<and>
        find (\<lambda>x. name x = d) drivers = Some drv" for aliases drivers drv
  proof -
    have n: "name drv = d"
      using that by (auto dest: find_Some_iff [THEN iffD1])
    have "alias_loop aliases (profile_text d nvs) = (profile_text d nvs, [])"
      using that by (simp add: alias_loop_no_match)
    then show ?thesis
      using that by (simp add: activate_driver_def p enumerate_find n split_beta)
  qed
  from p q r show ?thesis by blast
qed

theorem well_formed_profile_witness:
  \<open>CHR '':'' \<notin> set ''jtag'' \<and> length [(''freq'', ''1000000''), (''vref'', ''3.3'')] \<le> 32 \<and>
   profile_text ''jtag'' [(''freq'', ''1000000''), (''vref'', ''3.3'')] = ''jtag:freq=1000000,vref=3.3'' \<and>
   parse_profile ''jtag:freq=1000000,vref=3.3''
     = (''jtag'', arrays_of [(''freq'', ''1000000''), (''vref'', ''3.3'')]) \<and>
   arg_pairs (snd (parse_profile ''jtag:freq=1000000,vref=3.3''))
     = [(''freq'', ''1000000''), (''vref'', ''3.3'')] \<and>
   activate_driver
     [\<lparr>alias_name = ''unknownboard'', profile = ''jtag:freq=500000'', description = ''board''\<rparr>]
     [\<lparr>name = ''jtag'', help_text = [], activate = (\<lambda>ns vs. True), deactivate = (\<lambda>u. True)\<rparr>]
     ''jtag:freq=1000000,vref=3.3''
   = (Some \<lparr>name = ''jtag'', help_text = [], activate = (\<lambda>ns vs. True), deactivate = (\<lambda>u. True)\<rparr>,
      [Activate ''jtag'' (fst (arrays_of [(''freq'', ''1000000''), (''vref'', ''3.3'')]))
                         (snd (arrays_of [(''freq'', ''1000000''), (''vref'', ''3.3'')]))])\<close>
proof -
  have t: "profile_text ''jtag'' [(''freq'', ''1000000''), (''vref'', ''3.3'')]
             = ''jtag:freq=1000000,vref=3.3''"
    by (simp add: profile_text_def render_pair_def)
  have h1: "CHR '':'' \<notin> set ''jtag''"
    by simp
  have h2: "\<forall>nv\<in>set [(''freq'', ''1000000''), (''vref'', ''3.3'')].
      CHR '','' \<notin> set (fst nv) \<and> CHR ''='' \<notin> set (fst nv) \<and> CHR '','' \<notin> set (snd nv)"
    by simp
  have h3: "length [(''freq'', ''1000000''), (''vref'', ''3.3'')] \<le> 32"
    by simp
  have h4: "length (profile_text ''jtag'' [(''freq'', ''1000000''), (''vref'', ''3.3'')]) \<le> 1023"
    unfolding t by simp
  note w = well_formed_profile [OF h1 h2 h3 h4, unfolded t]
  have h5: "(\<forall>a\<in>set [\<lparr>alias_name = ''unknownboard'', profile = ''jtag:freq=500000'',
                          description = ''board''\<rparr>].
               alias_name a \<noteq> ''jtag:freq=1000000,vref=3.3'') \<and>
            find (\<lambda>x. name x = ''jtag'')
              [\<lparr>name = ''jtag'', help_text = [], activate = (\<lambda>ns vs. True),
                deactivate = (\<lambda>u. True)\<rparr>]
            = Some \<lparr>name = ''jtag'', help_text = [], activate = (\<lambda>ns vs. True),
                    deactivate = (\<lambda>u. True)\<rparr>"
    by simp
  from w [THEN conjunct2, THEN conjunct2, THEN spec, THEN spec, THEN spec, THEN mp, OF h5]
  have a: \<open>activate_driver
     [\<lparr>alias_name = ''unknownboard'', profile = ''jtag:freq=500000'', description = ''board''\<rparr>]
     [\<lparr>name = ''jtag'', help_text = [], activate = (\<lambda>ns vs. True), deactivate = (\<lambda>u. True)\<rparr>]
     ''jtag:freq=1000000,vref=3.3''
   = (Some \<lparr>name = ''jtag'', help_text = [], activate = (\<lambda>ns vs. True), deactivate = (\<lambda>u. True)\<rparr>,
      [Activate ''jtag'' (fst (arrays_of [(''freq'', ''1000000''), (''vref'', ''3.3'')]))
                         (snd (arrays_of [(''freq'', ''1000000''), (''vref'', ''3.3'')]))])\<close>
    by simp
  show ?thesis
    using h1 h3 t w [THEN conjunct1] w [THEN conjunct2, THEN conjunct1] a
    by (intro conjI)
qed

end
